theory Spec2Isabelle
  imports Main
begin

section \<open>The vschema data model\<close>

text \<open>
  The messages of package \<open>vschemapb\<close> that \<open>ApplyVSchemaDDL\<close>
  (go/vt/topotools/vschema_ddl.go) reads and writes, one record per message, with the
  fields the function touches. Field names carry a short prefix because record fields
  share one name space.

  A Go \<open>map[string]T\<close> is a partial function from strings. The two maps of a keyspace
  are made non-nil at lines 50-56 before anything reads them, so for them nil and the
  empty map are one value. The parameter map of a vindex is compared with
  \<open>reflect.DeepEqual\<close>, which tells a nil map from an empty one, so there nil is kept
  apart: \<open>None\<close> is the nil map, \<open>Some m\<close> a non-nil map with the entries of \<open>m\<close>.
  Map values and slice elements are pointers in Go; they are taken to be non-nil, as
  they are in every decoded message.
\<close>

type_synonym Params = "(string \<rightharpoonup> string) option"

record ColumnVindex =
  cv_Name :: string
  cv_Columns :: "string list"

record AutoIncrement =
  ai_Column :: string
  ai_Sequence :: string

record Table =
  tbl_Type :: string
  tbl_ColumnVindexes :: "ColumnVindex list"
  tbl_AutoIncrement :: "AutoIncrement option"

record Vindex =
  vdx_Type :: string
  vdx_Params :: Params
  vdx_Owner :: string

text \<open>\<open>topo.KeyspaceVSchemaInfo\<close>: the keyspace name and the embedded \<open>vschemapb.Keyspace\<close>.\<close>

record KeyspaceVSchemaInfo =
  ks_Name :: string
  Sharded :: bool
  Tables :: "string \<rightharpoonup> Table"
  Vindexes :: "string \<rightharpoonup> Vindex"

section \<open>The parsed statement\<close>

datatype DDLAction =
    CreateVindexDDLAction
  | DropVindexDDLAction
  | AddVschemaTableDDLAction
  | DropVschemaTableDDLAction
  | AddColVindexDDLAction
  | DropColVindexDDLAction
  | AddSequenceDDLAction
  | DropSequenceDDLAction
  | AddAutoIncDDLAction
  | DropAutoIncDDLAction
  | OtherDDLAction

text \<open>
  \<open>sqlparser.VindexSpec\<close>. Its method \<open>ParseParams\<close> lives in package sqlparser; the two
  values it returns (the owner and the parameter map) are the fields \<open>spec_Owner\<close> and
  \<open>spec_Params\<close>. An identifier is its string; \<open>NotEmpty\<close> and \<open>IsEmpty\<close> test that
  string against the empty one.
\<close>

record VindexSpec =
  spec_Name :: string
  spec_Type :: string
  spec_Owner :: string
  spec_Params :: Params

text \<open>\<open>sqlparser.AutoIncSpec\<close>; \<open>inc_Sequence\<close> is \<open>sqlparser.String(Sequence)\<close>.\<close>

record AutoIncSpec =
  inc_Column :: string
  inc_Sequence :: string

record AlterVschema =
  Action :: DDLAction
  alt_Table :: string
  alt_VindexSpec :: VindexSpec
  alt_VindexCols :: "string list"
  alt_AutoIncSpec :: AutoIncSpec

definition ParseParams :: "VindexSpec \<Rightarrow> string \<times> Params" where
  "ParseParams spec = (spec_Owner spec, spec_Params spec)"

definition NotEmpty :: "string \<Rightarrow> bool" where
  "NotEmpty s = (s \<noteq> [])"

definition IsEmpty :: "string \<Rightarrow> bool" where
  "IsEmpty s = (s = [])"

section \<open>Errors\<close>

text \<open>
  One constructor per \<open>vterrors.Errorf\<close> of the function, carrying the names its message
  prints (the keyspace name, printed by most of them, is the function's own argument and
  is left out). \<open>UnsupportedOnSharded\<close> carries the operation the message starts with.
\<close>

datatype topo_error = NoNode | OtherTopoError string

datatype error =
    FailedPrecondition
  | GetVSchemaFailed topo_error
  | VindexAlreadyExists string
  | VindexNotFound string
  | VindexInUse string string
  | UnsupportedOnSharded string
  | TableAlreadyExists string
  | TableNotFound string
  | VindexTypeMismatch string string string
  | VindexOwnerMismatch string string string
  | VindexParamsMismatch string
  | VindexNotInKeyspace string
  | VindexAlreadyOnTable string string
  | TableNotDefined string
  | VindexNotOnTable string string
  | SequenceAlreadyExists string
  | SequenceNotFound string
  | AutoIncAlreadyExists string
  | AutoIncNotFound string
  | UnexpectedOperation

section \<open>Helpers of the Go runtime\<close>

text \<open>\<open>len(m) == 0\<close> for a parameter map: nil, or no key.\<close>

definition lenIsZero :: "Params \<Rightarrow> bool" where
  "lenIsZero p = (case p of None \<Rightarrow> True | Some m \<Rightarrow> dom m = {})"

text \<open>\<open>reflect.DeepEqual\<close> on two \<open>map[string]string\<close>: both nil, or both non-nil with
  the same keys and values.\<close>

fun DeepEqual :: "Params \<Rightarrow> Params \<Rightarrow> bool" where
  "DeepEqual None None = True"
| "DeepEqual (Some m) (Some m') = (m = m')"
| "DeepEqual None (Some m') = False"
| "DeepEqual (Some m) None = False"

text \<open>The loops of lines 95-99 and 181-185: is there a column vindex of that name?\<close>

fun definedOn :: "string \<Rightarrow> ColumnVindex list \<Rightarrow> bool" where
  "definedOn name [] = False"
| "definedOn name (vindex # rest) = (if cv_Name vindex = name then True else definedOn name rest)"

text \<open>
  The loop of lines 93-100 over \<open>ksvs.Tables\<close>. Go leaves the order in which \<open>range\<close>
  visits a map open; the order is the list of keys given as last argument. The result is
  the first table in that order with a column vindex of the name, if there is one.
\<close>

fun rangeTables :: "string \<Rightarrow> (string \<rightharpoonup> Table) \<Rightarrow> string list \<Rightarrow> string option" where
  "rangeTables name tables [] = None"
| "rangeTables name tables (tableName # rest) =
     (case tables tableName of
        None \<Rightarrow> rangeTables name tables rest
      | Some table \<Rightarrow>
          if definedOn name (tbl_ColumnVindexes table) then Some tableName
          else rangeTables name tables rest)"

text \<open>A list is an order of \<open>range\<close> over a map when it holds each key once.\<close>

definition rangeOf :: "(string \<rightharpoonup> 'v) \<Rightarrow> string list \<Rightarrow> bool" where
  "rangeOf m keys = (distinct keys \<and> set keys = dom m)"

text \<open>The loop of lines 206-214: the index of the first column vindex of that name.\<close>

fun indexOfVindex :: "string \<Rightarrow> ColumnVindex list \<Rightarrow> nat \<Rightarrow> nat option" where
  "indexOfVindex name [] i = None"
| "indexOfVindex name (colVindex # rest) i =
     (if cv_Name colVindex = name then Some i else indexOfVindex name rest (Suc i))"

text \<open>\<open>append(s[:i], s[i+1:]...)\<close> for \<open>i < len(s)\<close>.\<close>

definition removeAt :: "nat \<Rightarrow> 'a list \<Rightarrow> 'a list" where
  "removeAt i s = take i s @ drop (Suc i) s"

section \<open>The ten branches of the switch\<close>

text \<open>
  Each branch takes the object \<open>ksvs\<close> as it is when the switch is entered and returns the
  object as it is when the function returns, together with the error (\<open>None\<close> for
  \<open>return ksvs, nil\<close>). The object is returned also on the error paths, where the Go
  function returns nil, so that what a failed call has written to it can be stated.
\<close>

type_synonym outcome = "KeyspaceVSchemaInfo \<times> error option"

text \<open>Lines 66-85.\<close>

definition createVindex :: "KeyspaceVSchemaInfo \<Rightarrow> AlterVschema \<Rightarrow> outcome" where
  "createVindex ksvs alterVschema =
     (let name = spec_Name (alt_VindexSpec alterVschema) in
      if Vindexes ksvs name \<noteq> None then (ksvs, Some (VindexAlreadyExists name))
      else
        let ksvs1 = (if dom (Vindexes ksvs) = {} then ksvs\<lparr>Sharded := True\<rparr> else ksvs);
            (owner, params) = ParseParams (alt_VindexSpec alterVschema)
        in (ksvs1\<lparr>Vindexes := (Vindexes ksvs1)(name \<mapsto>
              \<lparr>vdx_Type = spec_Type (alt_VindexSpec alterVschema),
               vdx_Params = params, vdx_Owner = owner\<rparr>)\<rparr>, None))"

text \<open>Lines 87-104.\<close>

definition dropVindex :: "KeyspaceVSchemaInfo \<Rightarrow> string list \<Rightarrow> AlterVschema \<Rightarrow> outcome" where
  "dropVindex ksvs rangeOrder alterVschema =
     (let name = spec_Name (alt_VindexSpec alterVschema) in
      if Vindexes ksvs name = None then (ksvs, Some (VindexNotFound name))
      else
        case rangeTables name (Tables ksvs) rangeOrder of
          Some tableName \<Rightarrow> (ksvs, Some (VindexInUse name tableName))
        | None \<Rightarrow> (ksvs\<lparr>Vindexes := (Vindexes ksvs)(name := None)\<rparr>, None))"

text \<open>Lines 106-118.\<close>

definition addVschemaTable :: "KeyspaceVSchemaInfo \<Rightarrow> AlterVschema \<Rightarrow> outcome" where
  "addVschemaTable ksvs alterVschema =
     (if Sharded ksvs then (ksvs, Some (UnsupportedOnSharded ''add vschema table''))
      else
        let name = alt_Table alterVschema in
        if Tables ksvs name \<noteq> None then (ksvs, Some (TableAlreadyExists name))
        else (ksvs\<lparr>Tables := (Tables ksvs)(name \<mapsto>
                \<lparr>tbl_Type = [], tbl_ColumnVindexes = [], tbl_AutoIncrement = None\<rparr>)\<rparr>, None))"

text \<open>Lines 120-128.\<close>

definition dropVschemaTable :: "KeyspaceVSchemaInfo \<Rightarrow> AlterVschema \<Rightarrow> outcome" where
  "dropVschemaTable ksvs alterVschema =
     (let name = alt_Table alterVschema in
      if Tables ksvs name = None then (ksvs, Some (TableNotFound name))
      else (ksvs\<lparr>Tables := (Tables ksvs)(name := None)\<rparr>, None))"

text \<open>Lines 139-169: the vindex of an added column vindex is checked or created.\<close>

definition addColVindex_vindex :: "KeyspaceVSchemaInfo \<Rightarrow> VindexSpec \<Rightarrow> outcome" where
  "addColVindex_vindex ksvs spec =
     (let name = spec_Name spec in
      if NotEmpty (spec_Type spec) then
        let (owner, params) = ParseParams spec in
        case Vindexes ksvs name of
          Some vindex \<Rightarrow>
            if vdx_Type vindex \<noteq> spec_Type spec
              then (ksvs, Some (VindexTypeMismatch name (vdx_Type vindex) (spec_Type spec)))
            else if vdx_Owner vindex \<noteq> owner
              then (ksvs, Some (VindexOwnerMismatch name (vdx_Owner vindex) owner))
            else if (\<not> lenIsZero (vdx_Params vindex) \<or> \<not> lenIsZero params)
                    \<and> \<not> DeepEqual (vdx_Params vindex) params
              then (ksvs, Some (VindexParamsMismatch name))
            else (ksvs, None)
        | None \<Rightarrow>
            let ksvs1 = (if dom (Vindexes ksvs) = {} then ksvs\<lparr>Sharded := True\<rparr> else ksvs)
            in (ksvs1\<lparr>Vindexes := (Vindexes ksvs1)(name \<mapsto>
                  \<lparr>vdx_Type = spec_Type spec, vdx_Params = params, vdx_Owner = owner\<rparr>)\<rparr>, None)
      else
        if Vindexes ksvs name = None then (ksvs, Some (VindexNotInKeyspace name))
        else (ksvs, None))"

text \<open>Lines 171-197: the column vindex is appended to the table, created if need be.\<close>

definition addColVindex_table ::
  "KeyspaceVSchemaInfo \<Rightarrow> string \<Rightarrow> Table option \<Rightarrow> string \<Rightarrow> string list \<Rightarrow> outcome" where
  "addColVindex_table ksvs tableName table0 name vindexCols =
     (let table = (case table0 of
                     None \<Rightarrow> \<lparr>tbl_Type = [], tbl_ColumnVindexes = [], tbl_AutoIncrement = None\<rparr>
                   | Some t \<Rightarrow> t) in
      if definedOn name (tbl_ColumnVindexes table)
        then (ksvs, Some (VindexAlreadyOnTable name tableName))
      else
        let columns = map (\<lambda>col. col) vindexCols;
            table1 = table\<lparr>tbl_ColumnVindexes :=
                       tbl_ColumnVindexes table @ [\<lparr>cv_Name = name, cv_Columns = columns\<rparr>]\<rparr>
        in (ksvs\<lparr>Tables := (Tables ksvs)(tableName \<mapsto> table1)\<rparr>, None))"

text \<open>Lines 130-197.\<close>

definition addColVindex ::
  "KeyspaceVSchemaInfo \<Rightarrow> string \<Rightarrow> Table option \<Rightarrow> AlterVschema \<Rightarrow> outcome" where
  "addColVindex ksvs tableName table alterVschema =
     (case addColVindex_vindex ksvs (alt_VindexSpec alterVschema) of
        (ksvs1, Some err) \<Rightarrow> (ksvs1, Some err)
      | (ksvs1, None) \<Rightarrow>
          addColVindex_table ksvs1 tableName table
            (spec_Name (alt_VindexSpec alterVschema)) (alt_VindexCols alterVschema))"

text \<open>Lines 199-215. The table is a pointer into the map, so shortening its list of
  column vindexes changes the entry of the map.\<close>

definition dropColVindex ::
  "KeyspaceVSchemaInfo \<Rightarrow> string \<Rightarrow> Table option \<Rightarrow> AlterVschema \<Rightarrow> outcome" where
  "dropColVindex ksvs tableName table0 alterVschema =
     (let name = spec_Name (alt_VindexSpec alterVschema) in
      case table0 of
        None \<Rightarrow> (ksvs, Some (TableNotDefined tableName))
      | Some table \<Rightarrow>
          (case indexOfVindex name (tbl_ColumnVindexes table) 0 of
             Some i \<Rightarrow>
               let table1 = table\<lparr>tbl_ColumnVindexes := removeAt i (tbl_ColumnVindexes table)\<rparr>;
                   ksvs1 = ksvs\<lparr>Tables := (Tables ksvs)(tableName \<mapsto> table1)\<rparr>
               in if length (tbl_ColumnVindexes table1) = 0
                    then (ksvs1\<lparr>Tables := (Tables ksvs1)(tableName := None)\<rparr>, None)
                    else (ksvs1, None)
           | None \<Rightarrow> (ksvs, Some (VindexNotOnTable name tableName))))"

text \<open>Lines 217-229.\<close>

definition addSequence :: "KeyspaceVSchemaInfo \<Rightarrow> AlterVschema \<Rightarrow> outcome" where
  "addSequence ksvs alterVschema =
     (if Sharded ksvs then (ksvs, Some (UnsupportedOnSharded ''add sequence table''))
      else
        let name = alt_Table alterVschema in
        if Tables ksvs name \<noteq> None then (ksvs, Some (SequenceAlreadyExists name))
        else (ksvs\<lparr>Tables := (Tables ksvs)(name \<mapsto>
                \<lparr>tbl_Type = ''sequence'', tbl_ColumnVindexes = [], tbl_AutoIncrement = None\<rparr>)\<rparr>,
              None))"

text \<open>Lines 231-243.\<close>

definition dropSequence :: "KeyspaceVSchemaInfo \<Rightarrow> AlterVschema \<Rightarrow> outcome" where
  "dropSequence ksvs alterVschema =
     (if Sharded ksvs then (ksvs, Some (UnsupportedOnSharded ''drop sequence table''))
      else
        let name = alt_Table alterVschema in
        if Tables ksvs name = None then (ksvs, Some (SequenceNotFound name))
        else (ksvs\<lparr>Tables := (Tables ksvs)(name := None)\<rparr>, None))"

text \<open>Lines 245-261.\<close>

definition addAutoInc :: "KeyspaceVSchemaInfo \<Rightarrow> AlterVschema \<Rightarrow> outcome" where
  "addAutoInc ksvs alterVschema =
     (let name = alt_Table alterVschema in
      case Tables ksvs name of
        None \<Rightarrow> (ksvs, Some (TableNotFound name))
      | Some table \<Rightarrow>
          if tbl_AutoIncrement table \<noteq> None then (ksvs, Some (AutoIncAlreadyExists name))
          else (ksvs\<lparr>Tables := (Tables ksvs)(name \<mapsto> table\<lparr>tbl_AutoIncrement := Some
                  \<lparr>ai_Column = inc_Column (alt_AutoIncSpec alterVschema),
                   ai_Sequence = inc_Sequence (alt_AutoIncSpec alterVschema)\<rparr>\<rparr>)\<rparr>, None))"

text \<open>Lines 263-276.\<close>

definition dropAutoInc :: "KeyspaceVSchemaInfo \<Rightarrow> AlterVschema \<Rightarrow> outcome" where
  "dropAutoInc ksvs alterVschema =
     (let name = alt_Table alterVschema in
      case Tables ksvs name of
        None \<Rightarrow> (ksvs, Some (TableNotFound name))
      | Some table \<Rightarrow>
          if tbl_AutoIncrement table = None then (ksvs, Some (AutoIncNotFound name))
          else (ksvs\<lparr>Tables := (Tables ksvs)(name \<mapsto> table\<lparr>tbl_AutoIncrement := None\<rparr>)\<rparr>,
                None))"

section \<open>The function\<close>

text \<open>Lines 58-63: the table the statement names, looked up once before the switch.\<close>

definition lookupTable :: "KeyspaceVSchemaInfo \<Rightarrow> AlterVschema \<Rightarrow> Table option" where
  "lookupTable ksvs alterVschema =
     (if \<not> IsEmpty (alt_Table alterVschema) then Tables ksvs (alt_Table alterVschema) else None)"

text \<open>Lines 58-279: the switch, on the schema object fetched or made before it.\<close>

definition applyAction :: "KeyspaceVSchemaInfo \<Rightarrow> string list \<Rightarrow> AlterVschema \<Rightarrow> outcome" where
  "applyAction ksvs rangeOrder alterVschema =
     (let tableName = (if \<not> IsEmpty (alt_Table alterVschema) then alt_Table alterVschema else []);
          table = lookupTable ksvs alterVschema
      in case Action alterVschema of
           CreateVindexDDLAction \<Rightarrow> createVindex ksvs alterVschema
         | DropVindexDDLAction \<Rightarrow> dropVindex ksvs rangeOrder alterVschema
         | AddVschemaTableDDLAction \<Rightarrow> addVschemaTable ksvs alterVschema
         | DropVschemaTableDDLAction \<Rightarrow> dropVschemaTable ksvs alterVschema
         | AddColVindexDDLAction \<Rightarrow> addColVindex ksvs tableName table alterVschema
         | DropColVindexDDLAction \<Rightarrow> dropColVindex ksvs tableName table alterVschema
         | AddSequenceDDLAction \<Rightarrow> addSequence ksvs alterVschema
         | DropSequenceDDLAction \<Rightarrow> dropSequence ksvs alterVschema
         | AddAutoIncDDLAction \<Rightarrow> addAutoInc ksvs alterVschema
         | DropAutoIncDDLAction \<Rightarrow> dropAutoInc ksvs alterVschema
         | OtherDDLAction \<Rightarrow> (ksvs, Some UnexpectedOperation))"

text \<open>
  \<open>topo.Server\<close>, as far as the function uses it: \<open>GetVSchema\<close> answers a keyspace name
  with a schema or an error. The argument \<open>topoServer\<close> is a pointer: \<open>None\<close> is nil.
\<close>

record Server =
  GetVSchema :: "string \<Rightarrow> topo_error + KeyspaceVSchemaInfo"

text \<open>What the function returns from an outcome: the object, or nil and the error.\<close>

definition returned :: "outcome \<Rightarrow> error + KeyspaceVSchemaInfo" where
  "returned out = (case snd out of None \<Rightarrow> Inr (fst out) | Some err \<Rightarrow> Inl err)"

text \<open>Lines 41-44: the schema made when the topology has none.\<close>

definition emptyKeyspace :: "string \<Rightarrow> KeyspaceVSchemaInfo" where
  "emptyKeyspace ksName =
     \<lparr>ks_Name = ksName, Sharded = False, Tables = Map.empty, Vindexes = Map.empty\<rparr>"

text \<open>Lines 33-56: the schema the switch works on, or the error returned before it.\<close>

definition fetchVSchema :: "string \<Rightarrow> Server option \<Rightarrow> error + KeyspaceVSchemaInfo" where
  "fetchVSchema ksName topoServer =
     (case topoServer of
        None \<Rightarrow> Inl FailedPrecondition
      | Some ts \<Rightarrow>
          (case GetVSchema ts ksName of
             Inr ksvs \<Rightarrow> Inr ksvs
           | Inl err \<Rightarrow>
               if err = NoNode then Inr (emptyKeyspace ksName)
               else Inl (GetVSchemaFailed err)))"

text \<open>Lines 33-280.\<close>

definition ApplyVSchemaDDL ::
  "string \<Rightarrow> Server option \<Rightarrow> string list \<Rightarrow> AlterVschema \<Rightarrow> error + KeyspaceVSchemaInfo" where
  "ApplyVSchemaDDL ksName topoServer rangeOrder alterVschema =
     (case fetchVSchema ksName topoServer of
        Inl err \<Rightarrow> Inl err
      | Inr ksvs \<Rightarrow> returned (applyAction ksvs rangeOrder alterVschema))"

section \<open>Notions used in the statements\<close>

text \<open>The entries of a parameter map; the nil map has none.\<close>

definition entries :: "Params \<Rightarrow> (string \<rightharpoonup> string)" where
  "entries p = (case p of None \<Rightarrow> Map.empty | Some m \<Rightarrow> m)"

section \<open>Example schemas and statements\<close>

text \<open>
  The schemas of the scenarios the specification lists, and a few around them, on which
  the theorems below are exercised: \<open>ks1\<close> is the keyspace after its first vindex was
  created, \<open>ks3\<close> has that vindex on column \<open>id\<close> of table \<open>t1\<close>.
\<close>

definition hash_spec :: VindexSpec where
  "hash_spec = \<lparr>spec_Name = ''hash_vdx'', spec_Type = ''hash'', spec_Owner = [],
                spec_Params = Some Map.empty\<rparr>"

definition bare_spec :: VindexSpec where
  "bare_spec = \<lparr>spec_Name = ''hash_vdx'', spec_Type = [], spec_Owner = [],
                spec_Params = Some Map.empty\<rparr>"

definition stmt :: "DDLAction \<Rightarrow> string \<Rightarrow> VindexSpec \<Rightarrow> AlterVschema" where
  "stmt act tbl spec =
     \<lparr>Action = act, alt_Table = tbl, alt_VindexSpec = spec, alt_VindexCols = [''id''],
      alt_AutoIncSpec = \<lparr>inc_Column = ''id'', inc_Sequence = ''seq''\<rparr>\<rparr>"

definition hash_vindex :: Vindex where
  "hash_vindex = \<lparr>vdx_Type = ''hash'', vdx_Params = Some Map.empty, vdx_Owner = []\<rparr>"

definition t1_table :: Table where
  "t1_table = \<lparr>tbl_Type = [],
               tbl_ColumnVindexes = [\<lparr>cv_Name = ''hash_vdx'', cv_Columns = [''id'']\<rparr>],
               tbl_AutoIncrement = None\<rparr>"

definition t1_with_inc :: Table where
  "t1_with_inc = t1_table\<lparr>tbl_AutoIncrement := Some \<lparr>ai_Column = ''id'', ai_Sequence = ''seq''\<rparr>\<rparr>"

definition plain_table :: Table where
  "plain_table = \<lparr>tbl_Type = [], tbl_ColumnVindexes = [], tbl_AutoIncrement = None\<rparr>"

definition seq_table :: Table where
  "seq_table = \<lparr>tbl_Type = ''sequence'', tbl_ColumnVindexes = [], tbl_AutoIncrement = None\<rparr>"

definition ks1 :: KeyspaceVSchemaInfo where
  "ks1 = \<lparr>ks_Name = ''ks'', Sharded = True, Tables = Map.empty,
          Vindexes = [''hash_vdx'' \<mapsto> hash_vindex]\<rparr>"

definition ks3 :: KeyspaceVSchemaInfo where
  "ks3 = \<lparr>ks_Name = ''ks'', Sharded = True, Tables = [''t1'' \<mapsto> t1_table],
          Vindexes = [''hash_vdx'' \<mapsto> hash_vindex]\<rparr>"

definition ks3_inc :: KeyspaceVSchemaInfo where
  "ks3_inc = \<lparr>ks_Name = ''ks'', Sharded = True, Tables = [''t1'' \<mapsto> t1_with_inc],
              Vindexes = [''hash_vdx'' \<mapsto> hash_vindex]\<rparr>"


definition ks_unsharded :: KeyspaceVSchemaInfo where
  "ks_unsharded = \<lparr>ks_Name = ''ks'', Sharded = False,
                   Tables = [''plain'' \<mapsto> plain_table, ''seq'' \<mapsto> seq_table],
                   Vindexes = Map.empty\<rparr>"

definition serving :: "KeyspaceVSchemaInfo \<Rightarrow> Server" where
  "serving ksvs = \<lparr>GetVSchema = (\<lambda>ksName. Inr ksvs)\<rparr>"

definition failing :: "topo_error \<Rightarrow> Server" where
  "failing err = \<lparr>GetVSchema = (\<lambda>ksName. Inl err)\<rparr>"

section \<open>Facts about the helpers\<close>

lemma definedOn_iff: "definedOn name cvs \<longleftrightarrow> (\<exists>cv \<in> set cvs. cv_Name cv = name)"
  by (induction cvs) auto

lemma rangeTables_None:
  "rangeTables name tables keys = None \<longleftrightarrow>
     (\<forall>tn \<in> set keys. \<forall>t. tables tn = Some t \<longrightarrow> \<not> definedOn name (tbl_ColumnVindexes t))"
  by (induction keys) (auto split: option.splits)

lemma rangeTables_Some:
  "rangeTables name tables keys = Some tn \<Longrightarrow>
     tn \<in> set keys \<and> (\<exists>t. tables tn = Some t \<and> definedOn name (tbl_ColumnVindexes t))"
  by (induction keys) (auto split: option.splits if_splits)

lemma returned_Inr: "returned out = Inr ks' \<longleftrightarrow> out = (ks', None)"
  by (cases out) (auto simp: returned_def split: option.splits)

lemma returned_Inl: "returned out = Inl e \<longleftrightarrow> snd out = Some e"
  by (cases out) (auto simp: returned_def split: option.splits)

lemma ApplyVSchemaDDL_fetched:
  "GetVSchema ts ksName = Inr ks \<Longrightarrow>
   ApplyVSchemaDDL ksName (Some ts) rng a = returned (applyAction ks rng a)"
  by (simp add: ApplyVSchemaDDL_def fetchVSchema_def)

lemmas handler_defs = createVindex_def dropVindex_def addVschemaTable_def dropVschemaTable_def
  addColVindex_def addColVindex_vindex_def addColVindex_table_def dropColVindex_def
  addSequence_def dropSequence_def addAutoInc_def dropAutoInc_def ParseParams_def



section \<open>The sharded flag\<close>







section \<open>AddColumnVindex: the parameters of an existing vindex\<close>

lemma params_test:
  "((\<not> lenIsZero p \<or> \<not> lenIsZero q) \<and> \<not> DeepEqual p q) \<longleftrightarrow> (\<exists>k. entries p k \<noteq> entries q k)"
proof (cases p)
  case None
  note p = this
  show ?thesis
  proof (cases q)
    case None
    with p show ?thesis by (simp add: lenIsZero_def entries_def)
  next
    case (Some m)
    have "dom m \<noteq> {} \<longleftrightarrow> (\<exists>k. m k \<noteq> None)" by (auto simp: dom_def)
    moreover have "(\<exists>k. m k \<noteq> None) \<longleftrightarrow> (\<exists>k. None \<noteq> m k)" by metis
    ultimately have "dom m \<noteq> {} \<longleftrightarrow> (\<exists>k. None \<noteq> m k)" by simp
    with p Some show ?thesis by (simp add: lenIsZero_def entries_def)
  qed
next
  case (Some m)
  note p = this
  show ?thesis
  proof (cases q)
    case None
    have "dom m \<noteq> {} \<longleftrightarrow> (\<exists>k. m k \<noteq> None)" by (auto simp: dom_def)
    with p None show ?thesis by (simp add: lenIsZero_def entries_def)
  next
    case (Some m')
    have "dom m = {} \<and> dom m' = {} \<longrightarrow> m = m'" by simp
    then have "((dom m \<noteq> {} \<or> dom m' \<noteq> {}) \<and> m \<noteq> m') \<longleftrightarrow> m \<noteq> m'" by blast
    also have "m \<noteq> m' \<longleftrightarrow> (\<exists>k. m k \<noteq> m' k)" by (simp add: fun_eq_iff)
    finally show ?thesis using p Some by (simp add: lenIsZero_def entries_def)
  qed
qed

lemma addColVindex_vindex_merge:
  assumes "NotEmpty (spec_Type spec)" and "Vindexes ks (spec_Name spec) = Some vindex"
  shows "addColVindex_vindex ks spec =
     (ks, if vdx_Type vindex \<noteq> spec_Type spec
            then Some (VindexTypeMismatch (spec_Name spec) (vdx_Type vindex) (spec_Type spec))
          else if vdx_Owner vindex \<noteq> spec_Owner spec
            then Some (VindexOwnerMismatch (spec_Name spec) (vdx_Owner vindex) (spec_Owner spec))
          else if \<exists>k. entries (vdx_Params vindex) k \<noteq> entries (spec_Params spec) k
            then Some (VindexParamsMismatch (spec_Name spec))
          else None)"
  using assms params_test [of "vdx_Params vindex" "spec_Params spec"]
  by (simp add: addColVindex_vindex_def ParseParams_def Let_def)

lemma addColVindex_table_no_mismatch:
  "snd (addColVindex_table ks tn t name cols) \<noteq> Some (VindexParamsMismatch n)"
  by (simp add: addColVindex_table_def Let_def)

text \<open>
  C6. In the merge case of AddColumnVindex (a type is given and the keyspace has a vindex
  of the name), the call fails with the parameter mismatch exactly when type and owner
  agree and the two parameter maps differ at some key, where a nil map has no entry at
  any key: the comparison is by key and value, with no order involved. So with one map
  empty and the other nil the call does not fail with the mismatch, and whenever the maps
  differ at a key the call fails.
\<close>

theorem params_comparison:
  assumes "GetVSchema ts ksName = Inr ks"
    and "Action a = AddColVindexDDLAction"
    and "NotEmpty (spec_Type (alt_VindexSpec a))"
    and "Vindexes ks (spec_Name (alt_VindexSpec a)) = Some vindex"
  shows "(ApplyVSchemaDDL ksName (Some ts) rng a
            = Inl (VindexParamsMismatch (spec_Name (alt_VindexSpec a)))
          \<longleftrightarrow> vdx_Type vindex = spec_Type (alt_VindexSpec a)
              \<and> vdx_Owner vindex = spec_Owner (alt_VindexSpec a)
              \<and> (\<exists>k. entries (vdx_Params vindex) k \<noteq> entries (spec_Params (alt_VindexSpec a)) k))
       \<and> ((vdx_Params vindex = None \<and> spec_Params (alt_VindexSpec a) = Some Map.empty
            \<or> vdx_Params vindex = Some Map.empty \<and> spec_Params (alt_VindexSpec a) = None)
          \<longrightarrow> ApplyVSchemaDDL ksName (Some ts) rng a
                \<noteq> Inl (VindexParamsMismatch (spec_Name (alt_VindexSpec a))))
       \<and> ((\<exists>k. entries (vdx_Params vindex) k \<noteq> entries (spec_Params (alt_VindexSpec a)) k)
          \<longrightarrow> (\<exists>err. ApplyVSchemaDDL ksName (Some ts) rng a = Inl err))"
proof -
  let ?spec = "alt_VindexSpec a"
  let ?differ = "\<exists>k. entries (vdx_Params vindex) k \<noteq> entries (spec_Params ?spec) k"
  let ?tn = "if \<not> IsEmpty (alt_Table a) then alt_Table a else []"
  have ret: "ApplyVSchemaDDL ksName (Some ts) rng a
      = returned (addColVindex ks ?tn (lookupTable ks a) a)"
    using assms(1,2) by (simp add: ApplyVSchemaDDL_fetched applyAction_def)
  note merge = addColVindex_vindex_merge [OF assms(3,4)]
  have first: "ApplyVSchemaDDL ksName (Some ts) rng a = Inl (VindexParamsMismatch (spec_Name ?spec))
      \<longleftrightarrow> vdx_Type vindex = spec_Type ?spec \<and> vdx_Owner vindex = spec_Owner ?spec \<and> ?differ"
    using addColVindex_table_no_mismatch [of ks ?tn "lookupTable ks a" "spec_Name ?spec"
        "alt_VindexCols a" "spec_Name ?spec"]
    unfolding ret returned_Inl by (simp add: addColVindex_def merge)
  have third: "?differ \<Longrightarrow> \<exists>err. ApplyVSchemaDDL ksName (Some ts) rng a = Inl err"
    unfolding ret by (simp add: addColVindex_def merge returned_def)
  have second: "(vdx_Params vindex = None \<and> spec_Params ?spec = Some Map.empty
            \<or> vdx_Params vindex = Some Map.empty \<and> spec_Params ?spec = None) \<Longrightarrow> \<not> ?differ"
    by (auto simp: entries_def)
  show ?thesis using first second third by blast
qed


text \<open>On \<open>ks1\<close>, whose vindex has an empty parameter map: a nil map in the statement
  is no mismatch, a map with one entry is.\<close>

theorem params_comparison_witness:
  "GetVSchema (serving ks1) ''ks'' = Inr ks1
   \<and> NotEmpty (spec_Type hash_spec)
   \<and> Vindexes ks1 ''hash_vdx'' = Some hash_vindex
   \<and> vdx_Params hash_vindex = Some Map.empty
   \<and> ApplyVSchemaDDL ''ks'' (Some (serving ks1)) []
        (stmt AddColVindexDDLAction ''t1'' (hash_spec\<lparr>spec_Params := None\<rparr>))
       \<noteq> Inl (VindexParamsMismatch ''hash_vdx'')
   \<and> ApplyVSchemaDDL ''ks'' (Some (serving ks1)) []
        (stmt AddColVindexDDLAction ''t1'' (hash_spec\<lparr>spec_Params := Some [''a'' \<mapsto> ''b'']\<rparr>))
       = Inl (VindexParamsMismatch ''hash_vdx'')"
proof -
  let ?nil = "stmt AddColVindexDDLAction ''t1'' (hash_spec\<lparr>spec_Params := None\<rparr>)"
  let ?ab = "stmt AddColVindexDDLAction ''t1'' (hash_spec\<lparr>spec_Params := Some [''a'' \<mapsto> ''b'']\<rparr>)"
  have srv: "GetVSchema (serving ks1) ''ks'' = Inr ks1" by (simp add: serving_def)
  have ty: "NotEmpty (spec_Type hash_spec)" by (simp add: NotEmpty_def hash_spec_def)
  have vx: "Vindexes ks1 ''hash_vdx'' = Some hash_vindex" by (simp add: ks1_def)
  have pm: "vdx_Params hash_vindex = Some Map.empty" by (simp add: hash_vindex_def)
  have act1: "Action ?nil = AddColVindexDDLAction" by (simp add: stmt_def)
  have ty1: "NotEmpty (spec_Type (alt_VindexSpec ?nil))"
    by (simp add: stmt_def NotEmpty_def hash_spec_def)
  have nm1: "spec_Name (alt_VindexSpec ?nil) = ''hash_vdx''" by (simp add: stmt_def hash_spec_def)
  have vx1: "Vindexes ks1 (spec_Name (alt_VindexSpec ?nil)) = Some hash_vindex"
    unfolding nm1 by (rule vx)
  have pre1: "vdx_Params hash_vindex = Some Map.empty \<and> spec_Params (alt_VindexSpec ?nil) = None"
    by (simp add: stmt_def hash_spec_def hash_vindex_def)
  have nil: "ApplyVSchemaDDL ''ks'' (Some (serving ks1)) [] ?nil
       \<noteq> Inl (VindexParamsMismatch ''hash_vdx'')"
    using params_comparison [OF srv act1 ty1 vx1, of "[]"] pre1 unfolding nm1 by blast
  have act2: "Action ?ab = AddColVindexDDLAction" by (simp add: stmt_def)
  have ty2: "NotEmpty (spec_Type (alt_VindexSpec ?ab))"
    by (simp add: stmt_def NotEmpty_def hash_spec_def)
  have nm2: "spec_Name (alt_VindexSpec ?ab) = ''hash_vdx''" by (simp add: stmt_def hash_spec_def)
  have vx2: "Vindexes ks1 (spec_Name (alt_VindexSpec ?ab)) = Some hash_vindex"
    unfolding nm2 by (rule vx)
  have same: "vdx_Type hash_vindex = spec_Type (alt_VindexSpec ?ab)
      \<and> vdx_Owner hash_vindex = spec_Owner (alt_VindexSpec ?ab)"
    by (simp add: stmt_def hash_spec_def hash_vindex_def)
  have differ: "\<exists>k. entries (vdx_Params hash_vindex) k
                  \<noteq> entries (spec_Params (alt_VindexSpec ?ab)) k"
    by (rule exI [of _ "''a''"]) (simp add: entries_def stmt_def hash_spec_def hash_vindex_def)
  have ab: "ApplyVSchemaDDL ''ks'' (Some (serving ks1)) [] ?ab
       = Inl (VindexParamsMismatch ''hash_vdx'')"
    using params_comparison [OF srv act2 ty2 vx2, of "[]"] same differ unfolding nm2 by blast
  from srv ty vx pm nil ab show ?thesis by blast
qed

section \<open>DropVindex\<close>

lemma rangeTables_complete:
  assumes "rangeOf tables keys"
  shows "rangeTables name tables keys = None \<longleftrightarrow>
     \<not> (\<exists>tn t. tables tn = Some t \<and> (\<exists>cv \<in> set (tbl_ColumnVindexes t). cv_Name cv = name))"
proof -
  have "set keys = dom tables" using assms by (simp add: rangeOf_def)
  then show ?thesis
    unfolding rangeTables_None definedOn_iff by (auto simp: dom_def)
qed

text \<open>
  C5. DropVindex succeeds exactly when the keyspace has a vindex of the name and no
  table has a column vindex of the name. When the vindex is there and some table names
  it, the call fails with the in-use error, and the table the error names is one that
  has a column vindex of the name (whatever the order in which \<open>range\<close> visits the
  tables). When the vindex is absent the call fails with the not-found error (that test
  comes first, line 89). On success the schema returned is the one fetched with that one
  entry removed from the vindexes.
\<close>

theorem dropVindex_spec:
  assumes "GetVSchema ts ksName = Inr ks"
    and "Action a = DropVindexDDLAction"
    and "rangeOf (Tables ks) rng"
    and "name = spec_Name (alt_VindexSpec a)"
  shows "((\<exists>ks'. ApplyVSchemaDDL ksName (Some ts) rng a = Inr ks') \<longleftrightarrow>
            Vindexes ks name \<noteq> None
            \<and> \<not> (\<exists>tn t. Tables ks tn = Some t
                     \<and> (\<exists>cv \<in> set (tbl_ColumnVindexes t). cv_Name cv = name)))
       \<and> (Vindexes ks name \<noteq> None
            \<and> (\<exists>tn t. Tables ks tn = Some t
                     \<and> (\<exists>cv \<in> set (tbl_ColumnVindexes t). cv_Name cv = name))
          \<longrightarrow> (\<exists>tn t. ApplyVSchemaDDL ksName (Some ts) rng a = Inl (VindexInUse name tn)
                     \<and> Tables ks tn = Some t
                     \<and> (\<exists>cv \<in> set (tbl_ColumnVindexes t). cv_Name cv = name)))
       \<and> (Vindexes ks name = None
          \<longrightarrow> ApplyVSchemaDDL ksName (Some ts) rng a = Inl (VindexNotFound name))
       \<and> (\<forall>ks'. ApplyVSchemaDDL ksName (Some ts) rng a = Inr ks'
          \<longrightarrow> ks' = ks\<lparr>Vindexes := (Vindexes ks)(name := None)\<rparr>)"
proof -
  let ?used = "\<exists>tn t. Tables ks tn = Some t
                 \<and> (\<exists>cv \<in> set (tbl_ColumnVindexes t). cv_Name cv = name)"
  let ?res = "ApplyVSchemaDDL ksName (Some ts) rng a"
  have ret: "?res = returned (dropVindex ks rng a)"
    using assms(1,2) by (simp add: ApplyVSchemaDDL_fetched applyAction_def)
  have none: "rangeTables name (Tables ks) rng = None \<longleftrightarrow> \<not> ?used"
    using assms(3) by (rule rangeTables_complete)
  show ?thesis
  proof (cases "Vindexes ks name")
    case None
    then have "?res = Inl (VindexNotFound name)"
      by (simp add: ret dropVindex_def returned_def assms(4) [symmetric])
    with None show ?thesis by simp
  next
    case (Some v)
    note present = this
    show ?thesis
    proof (cases "rangeTables name (Tables ks) rng")
      case None
      with none have unused: "\<not> ?used" by simp
      have "?res = Inr (ks\<lparr>Vindexes := (Vindexes ks)(name := None)\<rparr>)"
        using present None
        by (simp add: ret dropVindex_def returned_def assms(4) [symmetric])
      with present unused show ?thesis by simp
    next
      case (Some tn)
      with none have used: ?used by simp
      from rangeTables_Some [OF Some]
      obtain t where t: "Tables ks tn = Some t" "definedOn name (tbl_ColumnVindexes t)"
        by blast
      have res: "?res = Inl (VindexInUse name tn)"
        using present Some
        by (simp add: ret dropVindex_def returned_def assms(4) [symmetric])
      from t have "\<exists>cv \<in> set (tbl_ColumnVindexes t). cv_Name cv = name"
        by (simp add: definedOn_iff)
      with res t(1)
      have "\<exists>tn t. ?res = Inl (VindexInUse name tn) \<and> Tables ks tn = Some t
                     \<and> (\<exists>cv \<in> set (tbl_ColumnVindexes t). cv_Name cv = name)"
        by blast
      moreover have "\<forall>ks'. ?res \<noteq> Inr ks'" using res by simp
      ultimately show ?thesis
        using used present by simp
    qed
  qed
qed

text \<open>Scenarios 4 and 6: the vindex is in use on \<open>t1\<close> in \<open>ks3\<close>, and is dropped
  from \<open>ks1\<close>.\<close>

theorem dropVindex_spec_witness:
  "GetVSchema (serving ks3) ''ks'' = Inr ks3
   \<and> Action (stmt DropVindexDDLAction [] hash_spec) = DropVindexDDLAction
   \<and> rangeOf (Tables ks3) [''t1'']
   \<and> Vindexes ks3 ''hash_vdx'' \<noteq> None
   \<and> Tables ks3 ''t1'' = Some t1_table
   \<and> cv_Name (hd (tbl_ColumnVindexes t1_table)) = ''hash_vdx''
   \<and> ApplyVSchemaDDL ''ks'' (Some (serving ks3)) [''t1''] (stmt DropVindexDDLAction [] hash_spec)
       = Inl (VindexInUse ''hash_vdx'' ''t1'')
   \<and> GetVSchema (serving ks1) ''ks'' = Inr ks1
   \<and> rangeOf (Tables ks1) []
   \<and> Vindexes ks1 ''hash_vdx'' \<noteq> None
   \<and> ApplyVSchemaDDL ''ks'' (Some (serving ks1)) [] (stmt DropVindexDDLAction [] hash_spec)
       = Inr (ks1\<lparr>Vindexes := (Vindexes ks1)(''hash_vdx'' := None)\<rparr>)"
proof -
  let ?a = "stmt DropVindexDDLAction [] hash_spec"
  have act: "Action ?a = DropVindexDDLAction" by (simp add: stmt_def)
  have nm: "''hash_vdx'' = spec_Name (alt_VindexSpec ?a)" by (simp add: stmt_def hash_spec_def)
  have srv: "GetVSchema (serving ks3) ''ks'' = Inr ks3" by (simp add: serving_def)
  have rng: "rangeOf (Tables ks3) [''t1'']" by (simp add: rangeOf_def ks3_def)
  have vx: "Vindexes ks3 ''hash_vdx'' \<noteq> None" by (simp add: ks3_def)
  have tb: "Tables ks3 ''t1'' = Some t1_table" by (simp add: ks3_def)
  have hd: "cv_Name (hd (tbl_ColumnVindexes t1_table)) = ''hash_vdx''"
    by (simp add: t1_table_def)
  have mem: "hd (tbl_ColumnVindexes t1_table) \<in> set (tbl_ColumnVindexes t1_table)"
    by (simp add: t1_table_def)
  from tb hd mem
  have used: "\<exists>tn t. Tables ks3 tn = Some t
                 \<and> (\<exists>cv \<in> set (tbl_ColumnVindexes t). cv_Name cv = ''hash_vdx'')"
    by blast
  from dropVindex_spec [OF srv act rng nm] vx used
  obtain tn t where res: "ApplyVSchemaDDL ''ks'' (Some (serving ks3)) [''t1''] ?a
                  = Inl (VindexInUse ''hash_vdx'' tn)" and t: "Tables ks3 tn = Some t"
    by blast
  from t have "tn = ''t1''" by (simp add: ks3_def split: if_splits)
  with res have inuse: "ApplyVSchemaDDL ''ks'' (Some (serving ks3)) [''t1''] ?a
                  = Inl (VindexInUse ''hash_vdx'' ''t1'')"
    by simp
  have srv1: "GetVSchema (serving ks1) ''ks'' = Inr ks1" by (simp add: serving_def)
  have rng1: "rangeOf (Tables ks1) []" by (simp add: rangeOf_def ks1_def)
  have vx1: "Vindexes ks1 ''hash_vdx'' \<noteq> None" by (simp add: ks1_def)
  have unused: "\<not> (\<exists>tn t. Tables ks1 tn = Some t
                 \<and> (\<exists>cv \<in> set (tbl_ColumnVindexes t). cv_Name cv = ''hash_vdx''))"
    by (simp add: ks1_def)
  from dropVindex_spec [OF srv1 act rng1 nm] vx1 unused
  have ok: "ApplyVSchemaDDL ''ks'' (Some (serving ks1)) [] ?a
       = Inr (ks1\<lparr>Vindexes := (Vindexes ks1)(''hash_vdx'' := None)\<rparr>)"
    by blast
  from srv act rng vx tb hd inuse srv1 rng1 vx1 ok show ?thesis by blast
qed

section \<open>DropColumnVindex\<close>

lemma indexOfVindex_None:
  "indexOfVindex name cvs k = None \<longleftrightarrow> (\<forall>cv \<in> set cvs. cv_Name cv \<noteq> name)"
  by (induction cvs arbitrary: k) auto

lemma indexOfVindex_first:
  "i < length cvs \<Longrightarrow> cv_Name (cvs ! i) = name \<Longrightarrow> \<forall>j<i. cv_Name (cvs ! j) \<noteq> name
   \<Longrightarrow> indexOfVindex name cvs k = Some (k + i)"
proof (induction cvs arbitrary: i k)
  case Nil
  then show ?case by simp
next
  case (Cons cv cvs)
  show ?case
  proof (cases i)
    case 0
    with Cons.prems show ?thesis by simp
  next
    case (Suc i')
    with Cons.prems have head: "cv_Name cv \<noteq> name" by auto
    from Suc Cons.prems have "i' < length cvs" "cv_Name (cvs ! i') = name"
      "\<forall>j<i'. cv_Name (cvs ! j) \<noteq> name" by auto
    from Cons.IH [OF this, of "Suc k"] head Suc show ?thesis by simp
  qed
qed

lemma indexOfVindex_Some:
  "indexOfVindex name cvs k = Some n \<Longrightarrow>
   \<exists>i. n = k + i \<and> i < length cvs \<and> cv_Name (cvs ! i) = name
       \<and> (\<forall>j<i. cv_Name (cvs ! j) \<noteq> name)"
proof (induction cvs arbitrary: k)
  case Nil
  then show ?case by simp
next
  case (Cons cv cvs)
  show ?case
  proof (cases "cv_Name cv = name")
    case True
    with Cons.prems have "n = k + 0 \<and> 0 < length (cv # cvs) \<and> cv_Name ((cv # cvs) ! 0) = name
        \<and> (\<forall>j<0. cv_Name ((cv # cvs) ! j) \<noteq> name)" by simp
    then show ?thesis by blast
  next
    case False
    with Cons.prems have "indexOfVindex name cvs (Suc k) = Some n" by simp
    from Cons.IH [OF this] obtain i where i: "n = Suc k + i" "i < length cvs"
      "cv_Name (cvs ! i) = name" "\<forall>j<i. cv_Name (cvs ! j) \<noteq> name" by blast
    have "\<forall>j<Suc i. cv_Name ((cv # cvs) ! j) \<noteq> name"
      using False i(4) by (auto simp: less_Suc_eq_0_disj)
    with i have "n = k + Suc i \<and> Suc i < length (cv # cvs)
        \<and> cv_Name ((cv # cvs) ! Suc i) = name
        \<and> (\<forall>j<Suc i. cv_Name ((cv # cvs) ! j) \<noteq> name)" by simp
    then show ?thesis by blast
  qed
qed

lemma dropColVindex_found:
  assumes "indexOfVindex name (tbl_ColumnVindexes table) 0 = Some i"
    and "name = spec_Name (alt_VindexSpec a)"
  shows "dropColVindex ks tn (Some table) a =
     (ks\<lparr>Tables := (if removeAt i (tbl_ColumnVindexes table) = [] then (Tables ks)(tn := None)
                     else (Tables ks)(tn \<mapsto> table\<lparr>tbl_ColumnVindexes :=
                            removeAt i (tbl_ColumnVindexes table)\<rparr>))\<rparr>, None)"
  using assms by (simp add: dropColVindex_def Let_def)

text \<open>
  C7. DropColumnVindex fails with the table-not-defined error when the table name is not
  a key of the tables, and with the vindex-not-on-table error when the table is there and
  none of its column vindexes has the name. When the table has a column vindex of the
  name, the first of them at index \<open>i\<close>, the call returns the schema fetched with that
  one entry taken out of the table's list, the others in their order; and when the list
  becomes empty the table is removed from the tables instead. (The statement names a
  table: its name is not the empty identifier.)
\<close>

theorem dropColVindex_spec:
  assumes "GetVSchema ts ksName = Inr ks"
    and "Action a = DropColVindexDDLAction"
    and "tableName = alt_Table a"
    and "name = spec_Name (alt_VindexSpec a)"
  shows "(Tables ks tableName = None
          \<longrightarrow> ApplyVSchemaDDL ksName (Some ts) rng a = Inl (TableNotDefined tableName))
       \<and> (tableName \<noteq> [] \<and> Tables ks tableName = Some table
            \<and> (\<forall>cv \<in> set (tbl_ColumnVindexes table). cv_Name cv \<noteq> name)
          \<longrightarrow> ApplyVSchemaDDL ksName (Some ts) rng a = Inl (VindexNotOnTable name tableName))
       \<and> (tableName \<noteq> [] \<and> Tables ks tableName = Some table
            \<and> i < length (tbl_ColumnVindexes table)
            \<and> cv_Name (tbl_ColumnVindexes table ! i) = name
            \<and> (\<forall>j<i. cv_Name (tbl_ColumnVindexes table ! j) \<noteq> name)
          \<longrightarrow> ApplyVSchemaDDL ksName (Some ts) rng a =
                Inr (ks\<lparr>Tables :=
                  (if take i (tbl_ColumnVindexes table) @ drop (Suc i) (tbl_ColumnVindexes table) = []
                   then (Tables ks)(tableName := None)
                   else (Tables ks)(tableName \<mapsto> table\<lparr>tbl_ColumnVindexes :=
                          take i (tbl_ColumnVindexes table)
                          @ drop (Suc i) (tbl_ColumnVindexes table)\<rparr>))\<rparr>))"
proof -
  let ?res = "ApplyVSchemaDDL ksName (Some ts) rng a"
  let ?tn = "if \<not> IsEmpty (alt_Table a) then alt_Table a else []"
  have tn: "?tn = tableName" using assms(3) by (simp add: IsEmpty_def)
  have ret: "?res = returned (dropColVindex ks tableName (lookupTable ks a) a)"
    using assms(1,2) tn by (simp add: ApplyVSchemaDDL_fetched applyAction_def)
  have absent: "Tables ks tableName = None \<Longrightarrow> ?res = Inl (TableNotDefined tableName)"
    using assms(3) by (simp add: ret lookupTable_def dropColVindex_def returned_def)
  have look: "tableName \<noteq> [] \<Longrightarrow> lookupTable ks a = Tables ks tableName"
    using assms(3) by (simp add: lookupTable_def IsEmpty_def)
  have nomatch: "tableName \<noteq> [] \<Longrightarrow> Tables ks tableName = Some table
      \<Longrightarrow> \<forall>cv \<in> set (tbl_ColumnVindexes table). cv_Name cv \<noteq> name
      \<Longrightarrow> ?res = Inl (VindexNotOnTable name tableName)"
    using indexOfVindex_None [of name "tbl_ColumnVindexes table" 0] assms(4)
    by (simp add: ret look dropColVindex_def returned_def)
  have match: "tableName \<noteq> [] \<Longrightarrow> Tables ks tableName = Some table
      \<Longrightarrow> i < length (tbl_ColumnVindexes table)
      \<Longrightarrow> cv_Name (tbl_ColumnVindexes table ! i) = name
      \<Longrightarrow> \<forall>j<i. cv_Name (tbl_ColumnVindexes table ! j) \<noteq> name
      \<Longrightarrow> ?res = Inr (ks\<lparr>Tables :=
                  (if take i (tbl_ColumnVindexes table) @ drop (Suc i) (tbl_ColumnVindexes table) = []
                   then (Tables ks)(tableName := None)
                   else (Tables ks)(tableName \<mapsto> table\<lparr>tbl_ColumnVindexes :=
                          take i (tbl_ColumnVindexes table)
                          @ drop (Suc i) (tbl_ColumnVindexes table)\<rparr>))\<rparr>)"
  proof -
    assume a: "tableName \<noteq> []" "Tables ks tableName = Some table"
      "i < length (tbl_ColumnVindexes table)" "cv_Name (tbl_ColumnVindexes table ! i) = name"
      "\<forall>j<i. cv_Name (tbl_ColumnVindexes table ! j) \<noteq> name"
    have "indexOfVindex name (tbl_ColumnVindexes table) 0 = Some i"
      using indexOfVindex_first [OF a(3,4,5), of 0] by simp
    from dropColVindex_found [OF this assms(4), of ks tableName]
    show ?thesis
      using a(1,2) by (simp add: ret look returned_def removeAt_def)
  qed
  from absent nomatch match show ?thesis by blast
qed

text \<open>Scenario 5: the only column vindex of \<open>t1\<close> is dropped and the table goes with
  it. On \<open>ks1\<close> there is no table \<open>t1\<close>; on \<open>ks3\<close> the table has no vindex \<open>other\<close>.\<close>

theorem dropColVindex_spec_witness:
  "GetVSchema (serving ks3) ''ks'' = Inr ks3
   \<and> Tables ks3 ''t1'' = Some t1_table
   \<and> cv_Name (tbl_ColumnVindexes t1_table ! 0) = ''hash_vdx''
   \<and> ApplyVSchemaDDL ''ks'' (Some (serving ks3)) [] (stmt DropColVindexDDLAction ''t1'' bare_spec)
       = Inr (ks3\<lparr>Tables := (Tables ks3)(''t1'' := None)\<rparr>)
   \<and> ApplyVSchemaDDL ''ks'' (Some (serving ks3)) []
        (stmt DropColVindexDDLAction ''t1'' (bare_spec\<lparr>spec_Name := ''other''\<rparr>))
       = Inl (VindexNotOnTable ''other'' ''t1'')
   \<and> Tables ks1 ''t1'' = None
   \<and> ApplyVSchemaDDL ''ks'' (Some (serving ks1)) [] (stmt DropColVindexDDLAction ''t1'' bare_spec)
       = Inl (TableNotDefined ''t1'')"
proof -
  let ?a = "stmt DropColVindexDDLAction ''t1'' bare_spec"
  let ?b = "stmt DropColVindexDDLAction ''t1'' (bare_spec\<lparr>spec_Name := ''other''\<rparr>)"
  have srv: "GetVSchema (serving ks3) ''ks'' = Inr ks3" by (simp add: serving_def)
  have srv1: "GetVSchema (serving ks1) ''ks'' = Inr ks1" by (simp add: serving_def)
  have act: "Action ?a = DropColVindexDDLAction" by (simp add: stmt_def)
  have actb: "Action ?b = DropColVindexDDLAction" by (simp add: stmt_def)
  have tn: "''t1'' = alt_Table ?a" by (simp add: stmt_def)
  have tnb: "''t1'' = alt_Table ?b" by (simp add: stmt_def)
  have nm: "''hash_vdx'' = spec_Name (alt_VindexSpec ?a)" by (simp add: stmt_def bare_spec_def)
  have nmb: "''other'' = spec_Name (alt_VindexSpec ?b)" by (simp add: stmt_def)
  have tb: "Tables ks3 ''t1'' = Some t1_table" by (simp add: ks3_def)
  have tb1: "Tables ks1 ''t1'' = None" by (simp add: ks1_def)
  have first: "cv_Name (tbl_ColumnVindexes t1_table ! 0) = ''hash_vdx''"
    by (simp add: t1_table_def)
  have len: "0 < length (tbl_ColumnVindexes t1_table)" by (simp add: t1_table_def)
  have emp: "take 0 (tbl_ColumnVindexes t1_table) @ drop (Suc 0) (tbl_ColumnVindexes t1_table) = []"
    by (simp add: t1_table_def)
  have none: "\<forall>cv \<in> set (tbl_ColumnVindexes t1_table). cv_Name cv \<noteq> ''other''"
    by (simp add: t1_table_def)
  have ne: "''t1'' \<noteq> []" by simp
  from dropColVindex_spec [OF srv act tn nm, where table = t1_table and i = 0 and rng = "[]"]
    ne tb len first emp
  have ok: "ApplyVSchemaDDL ''ks'' (Some (serving ks3)) [] ?a
       = Inr (ks3\<lparr>Tables := (Tables ks3)(''t1'' := None)\<rparr>)"
    by simp
  from dropColVindex_spec [OF srv actb tnb nmb, where table = t1_table and i = 0 and rng = "[]"]
    ne tb none
  have nov: "ApplyVSchemaDDL ''ks'' (Some (serving ks3)) [] ?b
       = Inl (VindexNotOnTable ''other'' ''t1'')"
    by blast
  from dropColVindex_spec [OF srv1 act tn nm, where table = t1_table and i = 0 and rng = "[]"]
    tb1
  have not: "ApplyVSchemaDDL ''ks'' (Some (serving ks1)) [] ?a = Inl (TableNotDefined ''t1'')"
    by blast
  from srv tb first ok nov tb1 not show ?thesis by blast
qed

section \<open>The schema store\<close>

lemma applyAction_not_store_error:
  "snd (applyAction ks rng a) \<noteq> Some (GetVSchemaFailed err)"
  by (cases "Action a")
     (auto simp: applyAction_def handler_defs Let_def split: option.splits if_splits prod.splits)

lemma first_write_succeeds:
  "Action a = CreateVindexDDLAction \<or> Action a = AddVschemaTableDDLAction
     \<or> Action a = AddSequenceDDLAction
   \<Longrightarrow> snd (applyAction (emptyKeyspace ksName) rng a) = None"
  by (auto simp: applyAction_def emptyKeyspace_def createVindex_def addVschemaTable_def
        addSequence_def ParseParams_def Let_def)

text \<open>
  C8. When the store answers that the keyspace has no schema, the function does not
  return that error: it returns what the switch returns on the empty schema of that name
  (not sharded, no table, no vindex), which is also what it returns when the store holds
  that empty schema, and a first CreateVindex, AddTable or AddSequence succeeds. With no
  server (a nil pointer) the function returns the precondition error; there is nothing
  it could fetch from. Every other error of the store is returned, wrapped.
\<close>

theorem schema_store:
  "(GetVSchema ts ksName = Inl NoNode \<longrightarrow>
      ApplyVSchemaDDL ksName (Some ts) rng a
        = returned (applyAction (emptyKeyspace ksName) rng a)
      \<and> ApplyVSchemaDDL ksName (Some ts) rng a
        = ApplyVSchemaDDL ksName (Some \<lparr>GetVSchema = \<lambda>n. Inr (emptyKeyspace ksName)\<rparr>) rng a
      \<and> ApplyVSchemaDDL ksName (Some ts) rng a \<noteq> Inl (GetVSchemaFailed NoNode)
      \<and> (Action a = CreateVindexDDLAction \<or> Action a = AddVschemaTableDDLAction
            \<or> Action a = AddSequenceDDLAction
          \<longrightarrow> (\<exists>ks'. ApplyVSchemaDDL ksName (Some ts) rng a = Inr ks')))
   \<and> ks_Name (emptyKeyspace ksName) = ksName \<and> \<not> Sharded (emptyKeyspace ksName)
   \<and> Tables (emptyKeyspace ksName) = Map.empty \<and> Vindexes (emptyKeyspace ksName) = Map.empty
   \<and> ApplyVSchemaDDL ksName None rng a = Inl FailedPrecondition
   \<and> (GetVSchema ts ksName = Inl err \<and> err \<noteq> NoNode
        \<longrightarrow> ApplyVSchemaDDL ksName (Some ts) rng a = Inl (GetVSchemaFailed err))"
proof -
  let ?out = "applyAction (emptyKeyspace ksName) rng a"
  have nonode: "GetVSchema ts ksName = Inl NoNode \<Longrightarrow>
      ApplyVSchemaDDL ksName (Some ts) rng a = returned ?out"
    by (simp add: ApplyVSchemaDDL_def fetchVSchema_def)
  have stored: "ApplyVSchemaDDL ksName (Some \<lparr>GetVSchema = \<lambda>n. Inr (emptyKeyspace ksName)\<rparr>) rng a
      = returned ?out"
    by (simp add: ApplyVSchemaDDL_def fetchVSchema_def)
  have noerr: "returned ?out \<noteq> Inl (GetVSchemaFailed NoNode)"
    using applyAction_not_store_error [of "emptyKeyspace ksName" rng a NoNode]
    by (simp add: returned_Inl)
  have succ: "Action a = CreateVindexDDLAction \<or> Action a = AddVschemaTableDDLAction
            \<or> Action a = AddSequenceDDLAction \<Longrightarrow> \<exists>ks'. returned ?out = Inr ks'"
    using first_write_succeeds [of a ksName rng] by (simp add: returned_def)
  have empty: "ks_Name (emptyKeyspace ksName) = ksName \<and> \<not> Sharded (emptyKeyspace ksName)
     \<and> Tables (emptyKeyspace ksName) = Map.empty \<and> Vindexes (emptyKeyspace ksName) = Map.empty"
    by (simp add: emptyKeyspace_def)
  have nil: "ApplyVSchemaDDL ksName None rng a = Inl FailedPrecondition"
    by (simp add: ApplyVSchemaDDL_def fetchVSchema_def)
  have other: "GetVSchema ts ksName = Inl err \<Longrightarrow> err \<noteq> NoNode
        \<Longrightarrow> ApplyVSchemaDDL ksName (Some ts) rng a = Inl (GetVSchemaFailed err)"
    by (simp add: ApplyVSchemaDDL_def fetchVSchema_def)
  from nonode stored noerr succ empty nil other show ?thesis by metis
qed

text \<open>Scenario 1 against a store without a schema, and a store that fails otherwise.\<close>

theorem schema_store_witness:
  "GetVSchema (failing NoNode) ''ks'' = Inl NoNode
   \<and> ApplyVSchemaDDL ''ks'' (Some (failing NoNode)) [] (stmt CreateVindexDDLAction [] hash_spec)
       = Inr ks1
   \<and> GetVSchema (failing (OtherTopoError ''timeout'')) ''ks'' = Inl (OtherTopoError ''timeout'')
   \<and> ApplyVSchemaDDL ''ks'' (Some (failing (OtherTopoError ''timeout''))) []
        (stmt CreateVindexDDLAction [] hash_spec)
       = Inl (GetVSchemaFailed (OtherTopoError ''timeout''))"
proof -
  let ?a = "stmt CreateVindexDDLAction [] hash_spec"
  have s1: "GetVSchema (failing NoNode) ''ks'' = Inl NoNode" by (simp add: failing_def)
  have s2: "GetVSchema (failing (OtherTopoError ''timeout'')) ''ks''
      = Inl (OtherTopoError ''timeout'')" by (simp add: failing_def)
  have ne: "OtherTopoError ''timeout'' \<noteq> NoNode" by simp
  have run: "returned (applyAction (emptyKeyspace ''ks'') [] ?a) = Inr ks1"
    by (simp add: returned_def applyAction_def createVindex_def ParseParams_def Let_def
          lookupTable_def IsEmpty_def emptyKeyspace_def stmt_def hash_spec_def ks1_def
          hash_vindex_def)
  from schema_store [of "failing NoNode" "''ks''" "[]" ?a] s1 run
  have r1: "ApplyVSchemaDDL ''ks'' (Some (failing NoNode)) [] ?a = Inr ks1" by simp
  from schema_store [of "failing (OtherTopoError ''timeout'')" "''ks''" "[]" ?a
      "OtherTopoError ''timeout''"] s2 ne
  have r2: "ApplyVSchemaDDL ''ks'' (Some (failing (OtherTopoError ''timeout''))) [] ?a
       = Inl (GetVSchemaFailed (OtherTopoError ''timeout''))" by blast
  from s1 r1 s2 r2 show ?thesis by blast
qed

section \<open>Dropping tables and sequences\<close>

text \<open>
  C9. Neither DropSequence nor DropTable looks at the kind of the table: on a keyspace
  that is not sharded DropSequence removes the table of the name whatever its type (an
  ordinary table as well), and DropTable removes it whatever its type (a sequence as
  well); the type of the table occurs in no condition.
\<close>

theorem drop_ignores_kind:
  assumes "GetVSchema ts ksName = Inr ks"
    and "Tables ks (alt_Table a) = Some table"
  shows "(Action a = DropSequenceDDLAction \<and> \<not> Sharded ks
          \<longrightarrow> ApplyVSchemaDDL ksName (Some ts) rng a
                = Inr (ks\<lparr>Tables := (Tables ks)(alt_Table a := None)\<rparr>))
       \<and> (Action a = DropVschemaTableDDLAction
          \<longrightarrow> ApplyVSchemaDDL ksName (Some ts) rng a
                = Inr (ks\<lparr>Tables := (Tables ks)(alt_Table a := None)\<rparr>))"
  using assms
  by (auto simp: ApplyVSchemaDDL_fetched applyAction_def dropSequence_def dropVschemaTable_def
        returned_def Let_def)

text \<open>On \<open>ks_unsharded\<close>: DropSequence removes the ordinary table \<open>plain\<close>, DropTable
  removes the sequence \<open>seq\<close>.\<close>

theorem drop_ignores_kind_witness:
  "GetVSchema (serving ks_unsharded) ''ks'' = Inr ks_unsharded
   \<and> \<not> Sharded ks_unsharded
   \<and> Tables ks_unsharded ''plain'' = Some plain_table \<and> tbl_Type plain_table \<noteq> ''sequence''
   \<and> ApplyVSchemaDDL ''ks'' (Some (serving ks_unsharded)) []
        (stmt DropSequenceDDLAction ''plain'' bare_spec)
       = Inr (ks_unsharded\<lparr>Tables := (Tables ks_unsharded)(''plain'' := None)\<rparr>)
   \<and> Tables ks_unsharded ''seq'' = Some seq_table \<and> tbl_Type seq_table = ''sequence''
   \<and> ApplyVSchemaDDL ''ks'' (Some (serving ks_unsharded)) []
        (stmt DropVschemaTableDDLAction ''seq'' bare_spec)
       = Inr (ks_unsharded\<lparr>Tables := (Tables ks_unsharded)(''seq'' := None)\<rparr>)"
proof -
  let ?a = "stmt DropSequenceDDLAction ''plain'' bare_spec"
  let ?b = "stmt DropVschemaTableDDLAction ''seq'' bare_spec"
  have srv: "GetVSchema (serving ks_unsharded) ''ks'' = Inr ks_unsharded"
    by (simp add: serving_def)
  have ns: "\<not> Sharded ks_unsharded" by (simp add: ks_unsharded_def)
  have ta: "alt_Table ?a = ''plain''" and aa: "Action ?a = DropSequenceDDLAction"
    by (simp_all add: stmt_def)
  have tb: "alt_Table ?b = ''seq''" and ab: "Action ?b = DropVschemaTableDDLAction"
    by (simp_all add: stmt_def)
  have pl: "Tables ks_unsharded ''plain'' = Some plain_table" by (simp add: ks_unsharded_def)
  have sq: "Tables ks_unsharded ''seq'' = Some seq_table" by (simp add: ks_unsharded_def)
  have pt: "tbl_Type plain_table \<noteq> ''sequence''" by (simp add: plain_table_def)
  have st: "tbl_Type seq_table = ''sequence''" by (simp add: seq_table_def)
  from drop_ignores_kind [of "serving ks_unsharded" "''ks''" ks_unsharded ?a plain_table "[]"]
    srv pl ns aa ta
  have r1: "ApplyVSchemaDDL ''ks'' (Some (serving ks_unsharded)) [] ?a
       = Inr (ks_unsharded\<lparr>Tables := (Tables ks_unsharded)(''plain'' := None)\<rparr>)"
    by simp
  from drop_ignores_kind [of "serving ks_unsharded" "''ks''" ks_unsharded ?b seq_table "[]"]
    srv sq ab tb
  have r2: "ApplyVSchemaDDL ''ks'' (Some (serving ks_unsharded)) [] ?b
       = Inr (ks_unsharded\<lparr>Tables := (Tables ks_unsharded)(''seq'' := None)\<rparr>)"
    by simp
  from srv ns pl pt r1 sq st r2 show ?thesis by blast
qed

section \<open>What the table actions leave alone\<close>

lemma dropColVindex_frame:
  assumes "dropColVindex ks tn (lookupTable ks a) a = (ks', None)"
    and "tn = (if \<not> IsEmpty (alt_Table a) then alt_Table a else [])"
  shows "Vindexes ks' = Vindexes ks \<and> Sharded ks' = Sharded ks \<and> ks_Name ks' = ks_Name ks
       \<and> (\<forall>n. n \<noteq> alt_Table a \<longrightarrow> Tables ks' n = Tables ks n)"
  using assms
  by (auto simp: dropColVindex_def lookupTable_def Let_def
           split: option.splits if_splits)

lemma drop_frame:
  assumes "dropVschemaTable ks a = (ks', None) \<or> dropSequence ks a = (ks', None)"
  shows "Vindexes ks' = Vindexes ks \<and> Sharded ks' = Sharded ks \<and> ks_Name ks' = ks_Name ks
       \<and> (\<forall>n. n \<noteq> alt_Table a \<longrightarrow> Tables ks' n = Tables ks n)"
  using assms
  by (auto simp: dropVschemaTable_def dropSequence_def Let_def split: if_splits)

lemma addAutoInc_frame:
  assumes "addAutoInc ks a = (ks', None)"
  shows "Vindexes ks' = Vindexes ks \<and> Sharded ks' = Sharded ks \<and> ks_Name ks' = ks_Name ks
       \<and> (\<forall>n. n \<noteq> alt_Table a \<longrightarrow> Tables ks' n = Tables ks n)
       \<and> (\<exists>t. Tables ks (alt_Table a) = Some t
              \<and> Tables ks' (alt_Table a) = Some (t\<lparr>tbl_AutoIncrement := Some
                   \<lparr>ai_Column = inc_Column (alt_AutoIncSpec a),
                    ai_Sequence = inc_Sequence (alt_AutoIncSpec a)\<rparr>\<rparr>))"
  using assms
  by (auto simp: addAutoInc_def Let_def split: option.splits if_splits)

lemma dropAutoInc_frame:
  assumes "dropAutoInc ks a = (ks', None)"
  shows "Vindexes ks' = Vindexes ks \<and> Sharded ks' = Sharded ks \<and> ks_Name ks' = ks_Name ks
       \<and> (\<forall>n. n \<noteq> alt_Table a \<longrightarrow> Tables ks' n = Tables ks n)
       \<and> (\<exists>t. Tables ks (alt_Table a) = Some t
              \<and> Tables ks' (alt_Table a) = Some (t\<lparr>tbl_AutoIncrement := None\<rparr>))"
  using assms
  by (auto simp: dropAutoInc_def Let_def split: option.splits if_splits)

text \<open>
  C10. A successful DropColumnVindex, AddAutoIncrement, DropAutoIncrement, DropTable or
  DropSequence returns a schema with the vindexes, the sharded flag and the name of the
  schema fetched, and with the same entry as the schema fetched under every table name
  other than the one the statement names. After AddAutoIncrement and DropAutoIncrement
  the table named is the table it was with only its auto-increment field written (set to
  the column and sequence of the statement, or cleared): its type and its column vindexes
  are the same.
\<close>

theorem table_action_frame:
  assumes "GetVSchema ts ksName = Inr ks"
    and "ApplyVSchemaDDL ksName (Some ts) rng a = Inr ks'"
    and "Action a = DropColVindexDDLAction \<or> Action a = AddAutoIncDDLAction
         \<or> Action a = DropAutoIncDDLAction \<or> Action a = DropVschemaTableDDLAction
         \<or> Action a = DropSequenceDDLAction"
  shows "Vindexes ks' = Vindexes ks \<and> Sharded ks' = Sharded ks \<and> ks_Name ks' = ks_Name ks
       \<and> (\<forall>n. n \<noteq> alt_Table a \<longrightarrow> Tables ks' n = Tables ks n)
       \<and> (Action a = AddAutoIncDDLAction \<or> Action a = DropAutoIncDDLAction
          \<longrightarrow> (\<exists>t t'. Tables ks (alt_Table a) = Some t \<and> Tables ks' (alt_Table a) = Some t'
                 \<and> tbl_Type t' = tbl_Type t
                 \<and> tbl_ColumnVindexes t' = tbl_ColumnVindexes t
                 \<and> t' = t\<lparr>tbl_AutoIncrement :=
                      (if Action a = AddAutoIncDDLAction
                       then Some \<lparr>ai_Column = inc_Column (alt_AutoIncSpec a),
                                  ai_Sequence = inc_Sequence (alt_AutoIncSpec a)\<rparr>
                       else None)\<rparr>))"
proof -
  have out: "applyAction ks rng a = (ks', None)"
    using assms(1,2) by (simp add: ApplyVSchemaDDL_fetched returned_Inr)
  from assms(3) consider
      (dcv) "Action a = DropColVindexDDLAction" | (ai) "Action a = AddAutoIncDDLAction"
    | (di) "Action a = DropAutoIncDDLAction" | (dt) "Action a = DropVschemaTableDDLAction"
    | (ds) "Action a = DropSequenceDDLAction" by blast
  then show ?thesis
  proof cases
    case dcv
    with out have "dropColVindex ks (if \<not> IsEmpty (alt_Table a) then alt_Table a else [])
        (lookupTable ks a) a = (ks', None)" by (simp add: applyAction_def)
    from dropColVindex_frame [OF this refl] dcv show ?thesis by simp
  next
    case ai
    with out have "addAutoInc ks a = (ks', None)" by (simp add: applyAction_def)
    from addAutoInc_frame [OF this] ai show ?thesis by auto
  next
    case di
    with out have "dropAutoInc ks a = (ks', None)" by (simp add: applyAction_def)
    from dropAutoInc_frame [OF this] di show ?thesis by auto
  next
    case dt
    with out have "dropVschemaTable ks a = (ks', None)" by (simp add: applyAction_def)
    with drop_frame [of ks a ks'] dt show ?thesis by simp
  next
    case ds
    with out have "dropSequence ks a = (ks', None)" by (simp add: applyAction_def)
    with drop_frame [of ks a ks'] ds show ?thesis by simp
  qed
qed

text \<open>AddAutoIncrement on table \<open>t1\<close> of \<open>ks3\<close> gives \<open>ks3_inc\<close>: the same vindexes and
  flag, the same column vindexes on \<open>t1\<close>.\<close>

theorem table_action_frame_witness:
  "GetVSchema (serving ks3) ''ks'' = Inr ks3
   \<and> ApplyVSchemaDDL ''ks'' (Some (serving ks3)) [] (stmt AddAutoIncDDLAction ''t1'' bare_spec)
       = Inr ks3_inc
   \<and> Vindexes ks3_inc = Vindexes ks3 \<and> Sharded ks3_inc = Sharded ks3
   \<and> Tables ks3_inc ''other'' = Tables ks3 ''other''
   \<and> tbl_ColumnVindexes t1_with_inc = tbl_ColumnVindexes t1_table"
proof -
  let ?a = "stmt AddAutoIncDDLAction ''t1'' bare_spec"
  have srv: "GetVSchema (serving ks3) ''ks'' = Inr ks3" by (simp add: serving_def)
  have act: "Action ?a = AddAutoIncDDLAction" by (simp add: stmt_def)
  have tn: "alt_Table ?a = ''t1''" by (simp add: stmt_def)
  have run: "ApplyVSchemaDDL ''ks'' (Some (serving ks3)) [] ?a = Inr ks3_inc"
    by (simp add: ApplyVSchemaDDL_def fetchVSchema_def returned_def applyAction_def
          lookupTable_def addAutoInc_def Let_def serving_def stmt_def ks3_def ks3_inc_def
          t1_with_inc_def t1_table_def)
  have t: "Tables ks3 ''t1'' = Some t1_table" by (simp add: ks3_def)
  have t': "Tables ks3_inc ''t1'' = Some t1_with_inc" by (simp add: ks3_inc_def)
  note frame = table_action_frame [OF srv run, unfolded tn]
  from frame act have a: "Vindexes ks3_inc = Vindexes ks3 \<and> Sharded ks3_inc = Sharded ks3"
    by blast
  from frame act have "\<forall>n. n \<noteq> ''t1'' \<longrightarrow> Tables ks3_inc n = Tables ks3 n" by blast
  then have b: "Tables ks3_inc ''other'' = Tables ks3 ''other''" by simp
  from frame act obtain u u' where "Tables ks3 ''t1'' = Some u" "Tables ks3_inc ''t1'' = Some u'"
    "tbl_ColumnVindexes u' = tbl_ColumnVindexes u" by blast
  with t t' have c: "tbl_ColumnVindexes t1_with_inc = tbl_ColumnVindexes t1_table" by simp
  from srv run a b c show ?thesis by blast
qed

section \<open>Table actions on a sharded keyspace\<close>

text \<open>
  C2, as the code has it. On a sharded keyspace AddTable, AddSequence and DropSequence
  fail with the unsupported-on-sharded error whatever the tables hold, and the schema
  object is as it was. DropTable has no such test: it fails with the not-found error
  when the table is absent, the schema object as it was, and otherwise succeeds and
  returns the schema without the table.
\<close>

theorem sharded_table_actions:
  assumes "GetVSchema ts ksName = Inr ks"
    and "Sharded ks"
  shows "(Action a = AddVschemaTableDDLAction
          \<longrightarrow> ApplyVSchemaDDL ksName (Some ts) rng a = Inl (UnsupportedOnSharded ''add vschema table'')
              \<and> fst (applyAction ks rng a) = ks)
       \<and> (Action a = AddSequenceDDLAction
          \<longrightarrow> ApplyVSchemaDDL ksName (Some ts) rng a = Inl (UnsupportedOnSharded ''add sequence table'')
              \<and> fst (applyAction ks rng a) = ks)
       \<and> (Action a = DropSequenceDDLAction
          \<longrightarrow> ApplyVSchemaDDL ksName (Some ts) rng a = Inl (UnsupportedOnSharded ''drop sequence table'')
              \<and> fst (applyAction ks rng a) = ks)
       \<and> (Action a = DropVschemaTableDDLAction \<and> Tables ks (alt_Table a) = None
          \<longrightarrow> ApplyVSchemaDDL ksName (Some ts) rng a = Inl (TableNotFound (alt_Table a))
              \<and> fst (applyAction ks rng a) = ks)
       \<and> (Action a = DropVschemaTableDDLAction \<and> Tables ks (alt_Table a) \<noteq> None
          \<longrightarrow> ApplyVSchemaDDL ksName (Some ts) rng a
                = Inr (ks\<lparr>Tables := (Tables ks)(alt_Table a := None)\<rparr>))"
  using assms
  by (auto simp: ApplyVSchemaDDL_fetched applyAction_def addVschemaTable_def addSequence_def
        dropSequence_def dropVschemaTable_def returned_def Let_def)

text \<open>On the sharded \<open>ks3\<close>: AddTable fails for the absent table \<open>t2\<close>, DropSequence fails
  for the present table \<open>t1\<close>.\<close>

theorem sharded_table_actions_witness:
  "GetVSchema (serving ks3) ''ks'' = Inr ks3 \<and> Sharded ks3
   \<and> Tables ks3 ''t2'' = None
   \<and> ApplyVSchemaDDL ''ks'' (Some (serving ks3)) [] (stmt AddVschemaTableDDLAction ''t2'' bare_spec)
       = Inl (UnsupportedOnSharded ''add vschema table'')
   \<and> Tables ks3 ''t1'' \<noteq> None
   \<and> ApplyVSchemaDDL ''ks'' (Some (serving ks3)) [] (stmt DropSequenceDDLAction ''t1'' bare_spec)
       = Inl (UnsupportedOnSharded ''drop sequence table'')"
proof -
  have srv: "GetVSchema (serving ks3) ''ks'' = Inr ks3" by (simp add: serving_def)
  have sh: "Sharded ks3" by (simp add: ks3_def)
  have t2: "Tables ks3 ''t2'' = None" and t1: "Tables ks3 ''t1'' \<noteq> None"
    by (simp_all add: ks3_def)
  have a1: "Action (stmt AddVschemaTableDDLAction ''t2'' bare_spec) = AddVschemaTableDDLAction"
    and a2: "Action (stmt DropSequenceDDLAction ''t1'' bare_spec) = DropSequenceDDLAction"
    by (simp_all add: stmt_def)
  from sharded_table_actions [OF srv sh, of "stmt AddVschemaTableDDLAction ''t2'' bare_spec" "[]"] a1
  have r1: "ApplyVSchemaDDL ''ks'' (Some (serving ks3)) []
      (stmt AddVschemaTableDDLAction ''t2'' bare_spec) = Inl (UnsupportedOnSharded ''add vschema table'')"
    by blast
  from sharded_table_actions [OF srv sh, of "stmt DropSequenceDDLAction ''t1'' bare_spec" "[]"] a2
  have r2: "ApplyVSchemaDDL ''ks'' (Some (serving ks3)) []
      (stmt DropSequenceDDLAction ''t1'' bare_spec) = Inl (UnsupportedOnSharded ''drop sequence table'')"
    by blast
  from srv sh t2 r1 t1 r2 show ?thesis by blast
qed

text \<open>C2 as stated fails: \<open>ks3\<close> is sharded and DropTable of its table \<open>t1\<close> succeeds,
  returning the schema without the table (which is \<open>ks1\<close>).\<close>

theorem sharded_drop_table_counterexample:
  "Sharded ks3
   \<and> ApplyVSchemaDDL ''ks'' (Some (serving ks3)) [''t1'']
        (stmt DropVschemaTableDDLAction ''t1'' bare_spec) = Inr ks1
   \<and> Tables ks1 ''t1'' = None"
  by (simp add: ApplyVSchemaDDL_def fetchVSchema_def returned_def applyAction_def
        lookupTable_def dropVschemaTable_def Let_def serving_def stmt_def ks3_def ks1_def)

section \<open>Tables without column vindexes\<close>

lemma removeAt_empty:
  "i < length s \<Longrightarrow> removeAt i s = [] \<longleftrightarrow> length s = 1"
  by (cases s) (auto simp: removeAt_def)

lemma indexOfVindex_bound:
  "indexOfVindex name cvs 0 = Some i \<Longrightarrow> i < length cvs"
  using indexOfVindex_Some [of name cvs 0 i] by auto

lemma dropColVindex_deletes:
  assumes "dropColVindex ks (alt_Table a) (lookupTable ks a) a = (ks', None)"
  shows "\<exists>t. Tables ks (alt_Table a) = Some t
           \<and> (Tables ks' (alt_Table a) = None \<longleftrightarrow> length (tbl_ColumnVindexes t) = 1)"
proof (cases "lookupTable ks a")
  case None
  with assms show ?thesis by (simp add: dropColVindex_def)
next
  case (Some t)
  then have t: "Tables ks (alt_Table a) = Some t"
    by (simp add: lookupTable_def split: if_splits)
  show ?thesis
  proof (cases "indexOfVindex (spec_Name (alt_VindexSpec a)) (tbl_ColumnVindexes t) 0")
    case None
    with assms Some show ?thesis by (simp add: dropColVindex_def)
  next
    case (Some i)
    from indexOfVindex_bound [OF Some] have "i < length (tbl_ColumnVindexes t)" .
    note emp = removeAt_empty [OF this]
    let ?rest = "removeAt i (tbl_ColumnVindexes t)"
    from dropColVindex_found [OF Some refl, of ks "alt_Table a"] assms \<open>lookupTable ks a = Some t\<close>
    have ks': "ks' = ks\<lparr>Tables := (if ?rest = [] then (Tables ks)(alt_Table a := None)
                     else (Tables ks)(alt_Table a \<mapsto> t\<lparr>tbl_ColumnVindexes := ?rest\<rparr>))\<rparr>"
      by simp
    have "Tables ks' (alt_Table a) = None \<longleftrightarrow> ?rest = []"
    proof (cases "?rest = []")
      case True
      then show ?thesis by (simp add: ks')
    next
      case False
      then show ?thesis by (simp add: ks')
    qed
    from this emp
    have "Tables ks' (alt_Table a) = None \<longleftrightarrow> length (tbl_ColumnVindexes t) = 1"
      by (rule trans)
    with t have "Tables ks (alt_Table a) = Some t
           \<and> (Tables ks' (alt_Table a) = None \<longleftrightarrow> length (tbl_ColumnVindexes t) = 1)"
      by (rule conjI)
    then show ?thesis by (rule exI)
  qed
qed

lemma tableName_is_alt_Table:
  "(if \<not> IsEmpty (alt_Table a) then alt_Table a else []) = alt_Table a"
  by (simp add: IsEmpty_def)

lemma empty_tables_origin:
  assumes "applyAction ks rng a = (ks', None)"
    and "Tables ks' tn = Some t'" and "tbl_ColumnVindexes t' = []"
  shows "((Action a = AddVschemaTableDDLAction \<or> Action a = AddSequenceDDLAction)
            \<and> tn = alt_Table a \<and> Tables ks tn = None)
         \<or> (\<exists>t. Tables ks tn = Some t \<and> tbl_ColumnVindexes t = [])"
proof (cases "Action a")
  case CreateVindexDDLAction
  with assms show ?thesis
    by (auto simp: applyAction_def createVindex_def ParseParams_def Let_def split: if_splits)
next
  case DropVindexDDLAction
  with assms show ?thesis
    by (auto simp: applyAction_def dropVindex_def Let_def split: if_splits option.splits)
next
  case AddVschemaTableDDLAction
  with assms show ?thesis
    by (auto simp: applyAction_def addVschemaTable_def Let_def split: if_splits)
next
  case DropVschemaTableDDLAction
  with assms show ?thesis
    by (auto simp: applyAction_def dropVschemaTable_def Let_def split: if_splits)
next
  case AddColVindexDDLAction
  with assms show ?thesis
    by (auto simp: applyAction_def addColVindex_def addColVindex_vindex_def
          addColVindex_table_def ParseParams_def Let_def
          split: if_splits option.splits prod.splits)
next
  case DropColVindexDDLAction
  with assms show ?thesis
    by (auto simp: applyAction_def dropColVindex_def Let_def
          split: if_splits option.splits)
next
  case AddSequenceDDLAction
  with assms show ?thesis
    by (auto simp: applyAction_def addSequence_def Let_def split: if_splits)
next
  case DropSequenceDDLAction
  with assms show ?thesis
    by (auto simp: applyAction_def dropSequence_def Let_def split: if_splits)
next
  case AddAutoIncDDLAction
  with assms show ?thesis
    by (auto simp: applyAction_def addAutoInc_def Let_def split: if_splits option.splits)
next
  case DropAutoIncDDLAction
  with assms show ?thesis
    by (auto simp: applyAction_def dropAutoInc_def Let_def split: if_splits option.splits)
next
  case OtherDDLAction
  with assms show ?thesis by (simp add: applyAction_def)
qed

lemma add_creates_empty:
  assumes "applyAction ks rng a = (ks', None)"
    and "Action a = AddVschemaTableDDLAction \<or> Action a = AddSequenceDDLAction"
  shows "\<exists>t'. Tables ks' (alt_Table a) = Some t' \<and> tbl_ColumnVindexes t' = []
            \<and> tbl_AutoIncrement t' = None"
  using assms
  by (auto simp: applyAction_def addVschemaTable_def addSequence_def Let_def split: if_splits)

text \<open>
  C3, as the code has it. In the schema a successful call returns, a table without
  column vindexes is either the table this AddTable or AddSequence has just created
  (which has no auto-increment either), or a table that was in the schema fetched,
  already without column vindexes. A successful DropColumnVindex removes the table it
  names exactly when the table had one column vindex, the one dropped; the
  auto-increment of the table is not looked at, so a table that holds one is removed
  with its last column vindex all the same.
\<close>

theorem empty_tables:
  assumes "GetVSchema ts ksName = Inr ks"
    and "ApplyVSchemaDDL ksName (Some ts) rng a = Inr ks'"
  shows "(\<forall>tn t'. Tables ks' tn = Some t' \<and> tbl_ColumnVindexes t' = [] \<longrightarrow>
            ((Action a = AddVschemaTableDDLAction \<or> Action a = AddSequenceDDLAction)
               \<and> tn = alt_Table a \<and> Tables ks tn = None)
            \<or> (\<exists>t. Tables ks tn = Some t \<and> tbl_ColumnVindexes t = []))
       \<and> (Action a = AddVschemaTableDDLAction \<or> Action a = AddSequenceDDLAction
          \<longrightarrow> (\<exists>t'. Tables ks' (alt_Table a) = Some t' \<and> tbl_ColumnVindexes t' = []
                   \<and> tbl_AutoIncrement t' = None))
       \<and> (Action a = DropColVindexDDLAction
          \<longrightarrow> (\<exists>t. Tables ks (alt_Table a) = Some t
                 \<and> (Tables ks' (alt_Table a) = None
                      \<longleftrightarrow> length (tbl_ColumnVindexes t) = 1)))"
proof -
  have out: "applyAction ks rng a = (ks', None)"
    using assms by (simp add: ApplyVSchemaDDL_fetched returned_Inr)
  have one: "\<forall>tn t'. Tables ks' tn = Some t' \<and> tbl_ColumnVindexes t' = [] \<longrightarrow>
            ((Action a = AddVschemaTableDDLAction \<or> Action a = AddSequenceDDLAction)
               \<and> tn = alt_Table a \<and> Tables ks tn = None)
            \<or> (\<exists>t. Tables ks tn = Some t \<and> tbl_ColumnVindexes t = [])"
    using empty_tables_origin [OF out] by blast
  have two: "Action a = AddVschemaTableDDLAction \<or> Action a = AddSequenceDDLAction
          \<Longrightarrow> \<exists>t'. Tables ks' (alt_Table a) = Some t' \<and> tbl_ColumnVindexes t' = []
                   \<and> tbl_AutoIncrement t' = None"
    using add_creates_empty [OF out] by blast
  have three: "Action a = DropColVindexDDLAction
          \<Longrightarrow> \<exists>t. Tables ks (alt_Table a) = Some t
                 \<and> (Tables ks' (alt_Table a) = None
                      \<longleftrightarrow> length (tbl_ColumnVindexes t) = 1)"
  proof -
    assume "Action a = DropColVindexDDLAction"
    with out have "dropColVindex ks (alt_Table a) (lookupTable ks a) a = (ks', None)"
      by (simp add: applyAction_def tableName_is_alt_Table)
    then show ?thesis by (rule dropColVindex_deletes)
  qed
  from one two three show ?thesis by blast
qed

text \<open>AddTable on \<open>ks_unsharded\<close> leaves a table \<open>t2\<close> without column vindexes; dropping
  the one column vindex of \<open>t1\<close> in \<open>ks3_inc\<close> removes the table.\<close>

theorem empty_tables_witness:
  "GetVSchema (serving ks3_inc) ''ks'' = Inr ks3_inc
   \<and> ApplyVSchemaDDL ''ks'' (Some (serving ks3_inc)) []
        (stmt DropColVindexDDLAction ''t1'' bare_spec) = Inr (ks3_inc\<lparr>Tables := Map.empty\<rparr>)
   \<and> Tables ks3_inc ''t1'' = Some t1_with_inc
   \<and> length (tbl_ColumnVindexes t1_with_inc) = 1
   \<and> Tables (ks3_inc\<lparr>Tables := Map.empty\<rparr>) ''t1'' = None"
proof -
  let ?a = "stmt DropColVindexDDLAction ''t1'' bare_spec"
  have srv: "GetVSchema (serving ks3_inc) ''ks'' = Inr ks3_inc" by (simp add: serving_def)
  have act: "Action ?a = DropColVindexDDLAction" and tn: "alt_Table ?a = ''t1''"
    by (simp_all add: stmt_def)
  have run: "ApplyVSchemaDDL ''ks'' (Some (serving ks3_inc)) [] ?a
      = Inr (ks3_inc\<lparr>Tables := Map.empty\<rparr>)"
    by (simp add: ApplyVSchemaDDL_def fetchVSchema_def returned_def applyAction_def
          lookupTable_def IsEmpty_def dropColVindex_def removeAt_def Let_def serving_def
          stmt_def bare_spec_def ks3_inc_def t1_with_inc_def t1_table_def)
  have t: "Tables ks3_inc ''t1'' = Some t1_with_inc" by (simp add: ks3_inc_def)
  note third = empty_tables [OF srv run, unfolded tn, THEN conjunct2, THEN conjunct2,
      THEN mp, OF act]
  from third obtain u where u: "Tables ks3_inc ''t1'' = Some u"
    and iff: "(Tables (ks3_inc\<lparr>Tables := Map.empty\<rparr>) ''t1'' = None)
                = (length (tbl_ColumnVindexes u) = 1)"
    by (elim exE conjE)
  from u t have eq: "u = t1_with_inc" by simp
  have gone: "Tables (ks3_inc\<lparr>Tables := Map.empty\<rparr>) ''t1'' = None" by simp
  from iff gone have "length (tbl_ColumnVindexes u) = 1" by (rule iffD1)
  with eq have len: "length (tbl_ColumnVindexes t1_with_inc) = 1" by simp
  from srv run t len gone show ?thesis by (intro conjI)
qed

text \<open>C3 as stated fails: table \<open>t1\<close> of \<open>ks3_inc\<close> holds an auto-increment, and when
  its one column vindex is dropped the table is not kept.\<close>

theorem auto_increment_table_counterexample:
  "Tables ks3_inc ''t1'' = Some t1_with_inc
   \<and> tbl_AutoIncrement t1_with_inc = Some \<lparr>ai_Column = ''id'', ai_Sequence = ''seq''\<rparr>
   \<and> tbl_ColumnVindexes t1_with_inc = [\<lparr>cv_Name = ''hash_vdx'', cv_Columns = [''id'']\<rparr>]
   \<and> ApplyVSchemaDDL ''ks'' (Some (serving ks3_inc)) [''t1'']
        (stmt DropColVindexDDLAction ''t1'' bare_spec) = Inr (ks3_inc\<lparr>Tables := Map.empty\<rparr>)
   \<and> Tables (ks3_inc\<lparr>Tables := Map.empty\<rparr>) ''t1'' = None"
  by (simp add: ApplyVSchemaDDL_def fetchVSchema_def returned_def applyAction_def
        lookupTable_def IsEmpty_def dropColVindex_def removeAt_def Let_def serving_def
        stmt_def bare_spec_def ks3_inc_def t1_with_inc_def t1_table_def)

section \<open>Calls that fail\<close>







end
